theory Spec2Isabelle
  imports Complex_Main "HOL-Library.AList" "HOL-Library.Sublist"
begin

chapter \<open>astro-loader-glob-frontmatter: layered frontmatter resolution\<close>

text \<open>
  A shallow embedding of the loader's pure core: \<^verbatim>\<open>deepMerge\<close> (src/merge.ts), the
  heading extractor \<^verbatim>\<open>extractH1\<close> and \<^verbatim>\<open>stripH1Html\<close> (src/h1.ts, whose code the design
  note docs/plans/2026-02-15-h1-extraction-design.md gives), the two interceptors of
  \<^verbatim>\<open>globFrontmatter\<close> (src/index.ts, in the version that wraps \<^verbatim>\<open>parseData\<close> and
  \<^verbatim>\<open>store.set\<close>), and the frontmatter map (src/frontmatter-map.ts).

  Conventions of the embedding.
  \<^item> A JavaScript string is a \<open>string\<close>; a \<open>char\<close> stands for one code unit below 256.
  \<^item> A plain object is an association list in insertion order. \<open>Object.keys\<close> and
    \<open>Object.entries\<close> read the list from left to right, \<open>obj[key]\<close> is \<open>map_of\<close>, and the
    assignment \<open>obj[key] = v\<close> is \<open>AList.update\<close> (replace in place, or append). An object
    of the program has each key once; the predicate \<open>distinctKeys\<close> says so. JavaScript
    lists the keys that are array indices before the others; no statement below is about
    the order of the keys, and another order of enumeration only permutes the lists.
  \<^item> A \<open>Map\<close> is an association list as well, \<open>map.set\<close> being \<open>AList.update\<close>.
  \<^item> \<open>undefined\<close> is \<open>None\<close>; a thrown exception is the \<open>Inl\<close> of a sum.
\<close>

section \<open>Model\<close>

subsection \<open>Values\<close>

datatype number = Finite rat | NaN | Infinity bool

datatype json =
    JNull
  | JBool bool
  | JNum number
  | JStr string
  | JArr "json list"
  | JObj "(string \<times> json) list"

text \<open>\<^verbatim>\<open>type Data = Record<string, unknown>\<close>\<close>

type_synonym data = "(string \<times> json) list"

text \<open>
  \<^verbatim>\<open>typeof v === 'object' && v !== null && !Array.isArray(v)\<close>, for a value that may
  be \<open>undefined\<close>.
\<close>

fun isPlainObject :: "json option \<Rightarrow> bool" where
  "isPlainObject (Some (JObj kvs)) = True"
| "isPlainObject _ = False"

text \<open>The cast \<^verbatim>\<open>v as Data\<close> of a value that passed the test above.\<close>

fun asData :: "json \<Rightarrow> data" where
  "asData (JObj kvs) = kvs"
| "asData _ = []"

fun distinctKeys :: "json \<Rightarrow> bool" where
  "distinctKeys (JObj kvs) =
     (distinct (map fst kvs) \<and> list_all (\<lambda>(k, v). distinctKeys v) kvs)"
| "distinctKeys _ = True"

subsection \<open>src/merge.ts\<close>

definition blockedKey :: "string \<Rightarrow> bool" where
  "blockedKey key \<longleftrightarrow> key = ''__proto__'' \<or> key = ''constructor''"

lemma size_asData:
  "isPlainObject (Some v) \<Longrightarrow> size_list (size_prod (\<lambda>_. 0) size) (asData v) < size v"
  by (cases v) auto

text \<open>
  \<^verbatim>\<open>deepMerge(target, source)\<close>. The first argument is the loop variable \<open>result\<close>, which
  starts as the copy \<^verbatim>\<open>{ ...target }\<close>; the second is what is left of
  \<^verbatim>\<open>Object.keys(source)\<close>, each key with \<^verbatim>\<open>source[key]\<close>.

  \<^verbatim>\<open>result[key]\<close> also reads the prototype chain of a fresh object. Every property of
  \<open>Object.prototype\<close> but \<open>__proto__\<close> is a function, whose \<open>typeof\<close> is not
  \<open>'object'\<close>, and \<open>__proto__\<close> is skipped before the read: so the read behaves as the
  lookup among the own keys. The spread copies an own key \<open>__proto__\<close> of the target as
  an own key.
\<close>

function deepMerge :: "data \<Rightarrow> data \<Rightarrow> data" where
  "deepMerge result [] = result"
| "deepMerge result ((key, sVal) # source) =
     (if key = ''__proto__'' \<or> key = ''constructor'' then deepMerge result source
      else if isPlainObject (map_of result key) \<and> isPlainObject (Some sVal)
      then deepMerge
             (AList.update key
                (JObj (deepMerge (asData (the (map_of result key))) (asData sVal))) result)
             source
      else deepMerge (AList.update key sVal result) source)"
  by pat_completeness auto
termination
  by (relation "measure (\<lambda>(t, s). size_list (size_prod (\<lambda>_. 0) size) s)")
     (auto dest: size_asData)

text \<open>What one round of the loop stores under a key that is not blocked.\<close>

definition mergedValue :: "json option \<Rightarrow> json \<Rightarrow> json" where
  "mergedValue tVal sVal =
     (if isPlainObject tVal \<and> isPlainObject (Some sVal)
      then JObj (deepMerge (asData (the tVal)) (asData sVal)) else sVal)"

subsection \<open>src/h1.ts\<close>

text \<open>
  The regular expressions of the module are written out as the scanners they denote. The
  character classes: \<^verbatim>\<open>.\<close> is any character but a line terminator, \<^verbatim>\<open>\s\<close> is white space
  (the line terminators included), and \<^verbatim>\<open>[^\S\n]\<close> is white space other than the newline.
\<close>

definition isLineTerminator :: "char \<Rightarrow> bool" where
  "isLineTerminator c \<longleftrightarrow> c = CHR 0x0A \<or> c = CHR 0x0D"

definition isWhiteSpace :: "char \<Rightarrow> bool" where
  "isWhiteSpace c \<longleftrightarrow>
     c = CHR 0x09 \<or> c = CHR 0x0A \<or> c = CHR 0x0B \<or> c = CHR 0x0C \<or> c = CHR 0x0D \<or>
     c = CHR 0x20 \<or> c = CHR 0xA0"

text \<open>\<^verbatim>\<open>[^\S\n]*\n\<close> at the start of \<open>s\<close>: what follows the match.\<close>

definition blankLine :: "string \<Rightarrow> string option" where
  "blankLine s =
     (case dropWhile (\<lambda>c. isWhiteSpace c \<and> c \<noteq> CHR 0x0A) s of
        [] \<Rightarrow> None
      | c # rest \<Rightarrow> if c = CHR 0x0A then Some rest else None)"

lemma blankLine_shorter: "blankLine s = Some rest \<Longrightarrow> length rest < length s"
  using length_dropWhile_le [of "\<lambda>c. isWhiteSpace c \<and> c \<noteq> CHR 0x0A" s]
  by (cases "dropWhile (\<lambda>c. isWhiteSpace c \<and> c \<noteq> CHR 0x0A) s")
     (auto simp: blankLine_def split: if_splits)

text \<open>
  \<^verbatim>\<open>(?:[^\S\n]*\n)*\<close>, greedy. Giving back an iteration never helps the rest of
  \<^verbatim>\<open>H1_RE\<close>: where an iteration started, the text goes on with white space or a newline,
  not with \<^verbatim>\<open>#\<close>. So the longest run is the only one that can be followed by a heading.
\<close>

function blankLines :: "string \<Rightarrow> string" where
  "blankLines s = (case blankLine s of Some rest \<Rightarrow> blankLines rest | None \<Rightarrow> s)"
  by pat_completeness auto
termination
  by (relation "measure length") (auto dest: blankLine_shorter)

declare blankLines.simps [simp del]

text \<open>\<^verbatim>\<open>\n?\<close> at the start of \<open>s\<close>, and \<^verbatim>\<open>s.replace(/^\n/, '')\<close>.\<close>

definition optionalNewline :: "string \<Rightarrow> string" where
  "optionalNewline s = (case s of [] \<Rightarrow> [] | c # rest \<Rightarrow> if c = CHR 0x0A then rest else s)"

text \<open>
  \<^verbatim>\<open># (.+)\n?\<close> at the start of \<open>s\<close>: capture group 1, and what follows the match.
\<close>

definition headingAt :: "string \<Rightarrow> (string \<times> string) option" where
  "headingAt s =
     (case s of
        c1 # c2 # t \<Rightarrow>
          if c1 = CHR ''#'' \<and> c2 = CHR '' '' \<and> takeWhile (\<lambda>c. \<not> isLineTerminator c) t \<noteq> []
          then Some (takeWhile (\<lambda>c. \<not> isLineTerminator c) t,
                     optionalNewline (dropWhile (\<lambda>c. \<not> isLineTerminator c) t))
          else None
      | _ \<Rightarrow> None)"

text \<open>
  \<^verbatim>\<open>H1_RE.exec(markdown)\<close> with \<^verbatim>\<open>H1_RE = /^(?:[^\S\n]*\n)*# (.+)\n?/\<close>: \<open>match[1]\<close> and
  \<^verbatim>\<open>markdown.slice(match[0].length)\<close>, or \<open>None\<close> for \<open>null\<close>.
\<close>

definition H1_RE_exec :: "string \<Rightarrow> (string \<times> string) option" where
  "H1_RE_exec markdown = headingAt (blankLines markdown)"

text \<open>
  \<^verbatim>\<open>text.replace(re, '$k')\<close> for a global \<open>re\<close>: the matcher \<open>m\<close> gives, for a match that
  starts here, the text of group \<open>k\<close> and what follows the match. Every matcher below
  consumes its delimiters, so the test on the lengths always holds.
\<close>

function replaceAll :: "(string \<Rightarrow> (string \<times> string) option) \<Rightarrow> string \<Rightarrow> string" where
  "replaceAll m [] = []"
| "replaceAll m (c # cs) =
     (case m (c # cs) of
        Some (out, rest) \<Rightarrow>
          if length rest < length (c # cs) then out @ replaceAll m rest
          else c # replaceAll m cs
      | None \<Rightarrow> c # replaceAll m cs)"
  by pat_completeness auto
termination
  by (relation "measure (\<lambda>(m, s). length s)") auto

text \<open>\<^verbatim>\<open>\[([^\]]*)\]\([^)]*\)\<close>, the link; group 1 is the link text.\<close>

definition matchBrackets :: "string \<Rightarrow> (string \<times> string) option" where
  "matchBrackets s =
     (case s of
        [] \<Rightarrow> None
      | c # t \<Rightarrow>
          if c = CHR ''[''
          then (case dropWhile (\<lambda>c. c \<noteq> CHR '']'') t of
                  c1 # c2 # u \<Rightarrow>
                    if c2 = CHR ''(''
                    then (case dropWhile (\<lambda>c. c \<noteq> CHR '')'') u of
                            [] \<Rightarrow> None
                          | c3 # rest \<Rightarrow> Some (takeWhile (\<lambda>c. c \<noteq> CHR '']'') t, rest))
                    else None
                | _ \<Rightarrow> None)
          else None)"

text \<open>\<^verbatim>\<open>!\[([^\]]*)\]\([^)]*\)\<close>, the image; group 1 is the alt text.\<close>

definition matchImage :: "string \<Rightarrow> (string \<times> string) option" where
  "matchImage s =
     (case s of [] \<Rightarrow> None | c # t \<Rightarrow> if c = CHR ''!'' then matchBrackets t else None)"

text \<open>\<^verbatim>\<open>(.*?)\<close> followed by the literal \<open>d\<close>: the shortest text, and what follows \<open>d\<close>.\<close>

fun lazyUntil :: "string \<Rightarrow> string \<Rightarrow> (string \<times> string) option" where
  "lazyUntil d [] = (if d = [] then Some ([], []) else None)"
| "lazyUntil d (c # cs) =
     (if prefix d (c # cs) then Some ([], drop (length d) (c # cs))
      else if isLineTerminator c then None
      else map_option (\<lambda>(inner, rest). (c # inner, rest)) (lazyUntil d cs))"

text \<open>\<^verbatim>\<open>d(.*?)d\<close> for a literal delimiter \<open>d\<close>.\<close>

definition matchDelimited :: "string \<Rightarrow> string \<Rightarrow> (string \<times> string) option" where
  "matchDelimited d s = (if prefix d s then lazyUntil d (drop (length d) s) else None)"

text \<open>\<^verbatim>\<open>(\*\*|__)(.*?)\1\<close>: the first alternative is tried first.\<close>

definition matchBold :: "string \<Rightarrow> (string \<times> string) option" where
  "matchBold s =
     (case matchDelimited ''**'' s of Some r \<Rightarrow> Some r | None \<Rightarrow> matchDelimited ''__'' s)"

text \<open>\<^verbatim>\<open>(\*|_)(.*?)\1\<close>\<close>

definition matchItalic :: "string \<Rightarrow> (string \<times> string) option" where
  "matchItalic s =
     (case matchDelimited ''*'' s of Some r \<Rightarrow> Some r | None \<Rightarrow> matchDelimited ''_'' s)"

text \<open>\<^verbatim>\<open>~~(.*?)~~\<close>\<close>

definition matchStrike :: "string \<Rightarrow> (string \<times> string) option" where
  "matchStrike s = matchDelimited ''~~'' s"

text \<open>The inline code: a backquote, \<^verbatim>\<open>([^`]+)\<close>, a backquote.\<close>

definition matchCode :: "string \<Rightarrow> (string \<times> string) option" where
  "matchCode s =
     (case s of
        [] \<Rightarrow> None
      | c # t \<Rightarrow>
          if c = CHR 0x60 \<and> takeWhile (\<lambda>c. c \<noteq> CHR 0x60) t \<noteq> []
          then (case dropWhile (\<lambda>c. c \<noteq> CHR 0x60) t of
                  [] \<Rightarrow> None
                | c' # rest \<Rightarrow> Some (takeWhile (\<lambda>c. c \<noteq> CHR 0x60) t, rest))
          else None)"

text \<open>\<^verbatim>\<open>String.prototype.trim\<close>\<close>

definition trim :: "string \<Rightarrow> string" where
  "trim s = rev (dropWhile isWhiteSpace (rev (dropWhile isWhiteSpace s)))"

definition flattenInlineMarkdown :: "string \<Rightarrow> string" where
  "flattenInlineMarkdown text0 =
     trim (replaceAll matchCode (replaceAll matchStrike (replaceAll matchItalic
       (replaceAll matchBold (replaceAll matchBrackets (replaceAll matchImage text0))))))"

text \<open>\<^verbatim>\<open>[\s\S]*?\<close> followed by the literal \<open>d\<close>: what follows \<open>d\<close>.\<close>

fun lazyAnyUntil :: "string \<Rightarrow> string \<Rightarrow> string option" where
  "lazyAnyUntil d [] = (if d = [] then Some [] else None)"
| "lazyAnyUntil d (c # cs) =
     (if prefix d (c # cs) then Some (drop (length d) (c # cs)) else lazyAnyUntil d cs)"

text \<open>
  \<^verbatim>\<open>H1_HTML_RE = /<h1[^>]*>[\s\S]*?<\/h1>\n*/\<close> at the start of \<open>s\<close>: what follows the
  match.
\<close>

definition H1_HTML_RE_at :: "string \<Rightarrow> string option" where
  "H1_HTML_RE_at s =
     (if prefix ''<h1'' s
      then (case dropWhile (\<lambda>c. c \<noteq> CHR ''>'') (drop 3 s) of
              [] \<Rightarrow> None
            | c # t \<Rightarrow> map_option (dropWhile (\<lambda>c. c = CHR 0x0A)) (lazyAnyUntil ''</h1>'' t))
      else None)"

text \<open>\<^verbatim>\<open>html.replace(H1_HTML_RE, '')\<close>: the leftmost match only.\<close>

fun stripH1Html :: "string \<Rightarrow> string" where
  "stripH1Html [] = []"
| "stripH1Html (c # cs) =
     (case H1_HTML_RE_at (c # cs) of Some rest \<Rightarrow> rest | None \<Rightarrow> c # stripH1Html cs)"

text \<open>\<^verbatim>\<open>extractH1(markdown)\<close>: the pair is \<^verbatim>\<open>{ title, body }\<close>, \<open>None\<close> is \<open>null\<close>.\<close>

definition extractH1 :: "string \<Rightarrow> (string \<times> string) option" where
  "extractH1 markdown =
     (case H1_RE_exec markdown of
        None \<Rightarrow> None
      | Some (rawTitle, rest) \<Rightarrow> Some (flattenInlineMarkdown rawTitle, optionalNewline rest))"




definition plainText :: "string \<Rightarrow> bool" where
  "plainText s \<longleftrightarrow>
     (\<forall>c \<in> set s. c \<noteq> CHR ''!'' \<and> c \<noteq> CHR ''['' \<and> c \<noteq> CHR ''*'' \<and> c \<noteq> CHR ''_'' \<and>
        c \<noteq> CHR ''~'' \<and> c \<noteq> CHR 0x60 \<and> \<not> isLineTerminator c)"


subsection \<open>src/index.ts\<close>

text \<open>
  JavaScript's truthiness of a property that may be absent: \<^verbatim>\<open>!merged.title\<close> is
  \<open>\<not> truthy (map_of merged ''title'')\<close>.
\<close>

fun truthy :: "json option \<Rightarrow> bool" where
  "truthy None = False"
| "truthy (Some JNull) = False"
| "truthy (Some (JBool b)) = b"
| "truthy (Some (JNum n)) = (n \<noteq> Finite 0 \<and> n \<noteq> NaN)"
| "truthy (Some (JStr s)) = (s \<noteq> [])"
| "truthy (Some (JArr xs)) = True"
| "truthy (Some (JObj kvs)) = True"

text \<open>
  \<^verbatim>\<open>/^---\n[\s\S]*?\n---\n?/.exec(raw)\<close>, and the body that the wrapper takes: what
  follows the fence, or the whole text when there is no fence.
\<close>

definition fenceEnd :: "string \<Rightarrow> string option" where
  "fenceEnd raw =
     (if prefix ''---\<newline>'' raw
      then map_option optionalNewline (lazyAnyUntil ''\<newline>---'' (drop 4 raw))
      else None)"

definition bodyOf :: "string \<Rightarrow> string" where
  "bodyOf raw = (case fenceEnd raw of Some rest \<Rightarrow> rest | None \<Rightarrow> raw)"

text \<open>The argument of \<^verbatim>\<open>parseData\<close>.\<close>

record props =
  props_id :: string
  props_data :: data
  props_filePath :: "string option"

text \<open>
  The \<^verbatim>\<open>parseData\<close> wrapper: the argument it passes on to the original
  \<^verbatim>\<open>parseData\<close>. Its surroundings are parameters: \<open>relPath\<close> is
  \<^verbatim>\<open>relative(normalizedBase, _)\<close>, \<open>fmMap\<close> is the frontmatter map of the load, and
  \<open>readFile\<close> is \<^verbatim>\<open>readFileSync(resolve(rootDir, _), 'utf-8')\<close>, \<open>None\<close> when the read
  throws (the wrapper catches it).
\<close>

definition parseDataWrapper ::
  "(string \<Rightarrow> string) \<Rightarrow> (string \<times> data) list \<Rightarrow> (string \<Rightarrow> string option) \<Rightarrow> props \<Rightarrow> props"
where
  "parseDataWrapper relPath fmMap readFile p =
     (case props_filePath p of
        None \<Rightarrow> p
      | Some fp \<Rightarrow>
          if fp = [] then p
          else
            let externalData = (case map_of fmMap (relPath fp) of Some d \<Rightarrow> d | None \<Rightarrow> []);
                merged = deepMerge externalData (props_data p)
            in if \<not> truthy (map_of merged ''title'')
               then (case readFile fp of
                       None \<Rightarrow> p\<lparr>props_data := merged\<rparr>
                     | Some raw \<Rightarrow>
                         (case extractH1 (bodyOf raw) of
                            Some h1 \<Rightarrow>
                              p\<lparr>props_data := AList.update ''title'' (JStr (fst h1)) merged\<rparr>
                          | None \<Rightarrow> p\<lparr>props_data := merged\<rparr>))
               else p\<lparr>props_data := merged\<rparr>)"

text \<open>The entry that the store receives.\<close>

record heading =
  depth :: int
  slug :: string
  heading_text :: string

record metadata =
  headings :: "heading list option"

record rendered =
  html :: string
  metadata :: "metadata option"

record entry =
  entry_id :: string
  entry_data :: data
  entry_body :: "string option"
  entry_rendered :: "rendered option"

text \<open>
  The \<^verbatim>\<open>store.set\<close> wrapper: the entry it passes on to the original \<^verbatim>\<open>set\<close>. The
  two \<^verbatim>\<open>if\<close> statements follow one another; the second does not look at what the first
  found.
\<close>

definition stripBody :: "entry \<Rightarrow> entry" where
  "stripBody e =
     (case entry_body e of
        None \<Rightarrow> e
      | Some b \<Rightarrow>
          if b = [] then e
          else (case extractH1 b of
                  Some h1 \<Rightarrow> e\<lparr>entry_body := Some (snd h1)\<rparr>
                | None \<Rightarrow> e))"

definition stripHeadings :: "rendered \<Rightarrow> rendered" where
  "stripHeadings r =
     (case metadata r of
        None \<Rightarrow> r
      | Some md \<Rightarrow>
          (case headings md of
             None \<Rightarrow> r
           | Some hs \<Rightarrow>
               if length hs > 0 \<and> depth (hd hs) = 1
               then r\<lparr>metadata := Some (md\<lparr>headings := Some (tl hs)\<rparr>)\<rparr>
               else r))"

definition stripRendered :: "entry \<Rightarrow> entry" where
  "stripRendered e =
     (case entry_rendered e of
        None \<Rightarrow> e
      | Some r \<Rightarrow> e\<lparr>entry_rendered := Some (stripHeadings (r\<lparr>html := stripH1Html (html r)\<rparr>))\<rparr>)"

definition storeSetWrapper :: "entry \<Rightarrow> entry" where
  "storeSetWrapper e = stripRendered (stripBody e)"

subsection \<open>src/frontmatter-map.ts\<close>

text \<open>
  \<^verbatim>\<open>extname\<close> of \<open>node:path\<close> (POSIX), after Node's documentation: the extension runs
  from the last dot of the last portion of the path to its end; it is empty when that
  portion has no dot, when its only dot is its first character, and for the portion
  \<^verbatim>\<open>..\<close>. Trailing separators are not part of the last portion.
\<close>

definition lastPortion :: "string \<Rightarrow> string" where
  "lastPortion path =
     rev (takeWhile (\<lambda>c. c \<noteq> CHR ''/'') (dropWhile (\<lambda>c. c = CHR ''/'') (rev path)))"

definition extname :: "string \<Rightarrow> string" where
  "extname path =
     (let b = lastPortion path;
          e = rev (takeWhile (\<lambda>c. c \<noteq> CHR ''.'') (rev b))
      in if CHR ''.'' \<notin> set b then []
         else if Suc (length e) = length b then []
         else if b = ''..'' then []
         else CHR ''.'' # e)"

definition CONTENT_EXTENSIONS :: "string set" where
  "CONTENT_EXTENSIONS = {''.md'', ''.mdx'', ''.mdoc''}"

definition FRONTMATTER_FILENAMES :: "string list" where
  "FRONTMATTER_FILENAMES = [''frontmatter.yml'', ''frontmatter.yaml'', ''frontmatter.json'']"

definition isContentFile :: "string \<Rightarrow> bool" where
  "isContentFile key \<longleftrightarrow> extname key \<in> CONTENT_EXTENSIONS"

text \<open>
  The file system, read only during a load. A path resolves to a file with its text, to a
  directory with its entries in the order of \<^verbatim>\<open>readdirSync\<close>, or to nothing. The tree
  under a directory is finite, as a tree of directories is (\<^verbatim>\<open>isDirectory()\<close> of a
  directory entry does not follow symbolic links).
\<close>

datatype node = File string | Dir "(string \<times> node) list"

type_synonym fs = "string \<Rightarrow> node option"

datatype error =
    Error string
  | SystemError string string

definition existsSync :: "fs \<Rightarrow> string \<Rightarrow> bool" where
  "existsSync fs path \<longleftrightarrow> fs path \<noteq> None"

text \<open>\<^verbatim>\<open>readFileSync(path, 'utf-8')\<close>, for what the path resolves to.\<close>

fun readNode :: "string \<Rightarrow> node option \<Rightarrow> error + string" where
  "readNode path (Some (File content)) = Inr content"
| "readNode path (Some (Dir entries)) = Inl (SystemError ''EISDIR'' path)"
| "readNode path None = Inl (SystemError ''ENOENT'' path)"

definition readFileSync :: "fs \<Rightarrow> string \<Rightarrow> error + string" where
  "readFileSync fs path = readNode path (fs path)"

text \<open>
  The two parsers are libraries, and parameters here: \<^verbatim>\<open>JSON.parse\<close> and \<^verbatim>\<open>parse\<close> of
  the package \<open>yaml\<close>. \<open>Inl\<close> carries the message of the error thrown; the YAML parser
  gives \<open>None\<close> for a document that is \<open>null\<close> or empty. The result is typed as the source
  casts it, \<^verbatim>\<open>as Data\<close>.
\<close>

record parsers =
  JSON_parse :: "string \<Rightarrow> string + data"
  parseYaml :: "string \<Rightarrow> string + data option"

text \<open>
  \<^verbatim>\<open>parseDataFile(filePath)\<close>; the argument \<open>content\<close> is what
  \<^verbatim>\<open>readFileSync(filePath, 'utf-8')\<close> returns, which stands before the \<^verbatim>\<open>try\<close>.
\<close>

definition parseDataFile :: "parsers \<Rightarrow> error + string \<Rightarrow> string \<Rightarrow> error + data" where
  "parseDataFile P content filePath =
     (case content of
        Inl e \<Rightarrow> Inl e
      | Inr c \<Rightarrow>
          if suffix ''.json'' filePath
          then (case JSON_parse P c of
                  Inl message \<Rightarrow> Inl (Error (''Failed to parse '' @ filePath @ '': '' @ message))
                | Inr d \<Rightarrow> Inr d)
          else (case parseYaml P c of
                  Inl message \<Rightarrow> Inl (Error (''Failed to parse '' @ filePath @ '': '' @ message))
                | Inr None \<Rightarrow> Inr []
                | Inr (Some d) \<Rightarrow> Inr d))"

definition parseCentralFile :: "parsers \<Rightarrow> fs \<Rightarrow> string \<Rightarrow> error + data" where
  "parseCentralFile P fs filePath =
     (if \<not> existsSync fs filePath then Inr []
      else parseDataFile P (readFileSync fs filePath) filePath)"

text \<open>\<^verbatim>\<open>prefix ? `${prefix}/${key}` : key\<close>\<close>

definition joinKey :: "string \<Rightarrow> string \<Rightarrow> string" where
  "joinKey pre key = (if pre \<noteq> [] then pre @ ''/'' @ key else key)"

text \<open>\<^verbatim>\<open>for (const [k, v] of nested) map.set(k, v)\<close>\<close>

definition setAll :: "(string \<times> data) list \<Rightarrow> (string \<times> data) list \<Rightarrow> (string \<times> data) list" where
  "setAll nested m = fold (\<lambda>(k, v). AList.update k v) nested m"

text \<open>
  \<^verbatim>\<open>flattenToMap(data, prefix)\<close>. \<open>flattenLoop\<close> is the loop over
  \<^verbatim>\<open>Object.entries(data)\<close>, its first argument the map built so far.
\<close>

function flattenLoop :: "(string \<times> data) list \<Rightarrow> data \<Rightarrow> string \<Rightarrow> (string \<times> data) list" where
  "flattenLoop m [] pre = m"
| "flattenLoop m ((key, v) # entries) pre =
     (if \<not> isPlainObject (Some v) then flattenLoop m entries pre
      else if isContentFile key
      then flattenLoop (AList.update (joinKey pre key) (asData v) m) entries pre
      else flattenLoop (setAll (flattenLoop [] (asData v) (joinKey pre key)) m) entries pre)"
  by pat_completeness auto
termination
  by (relation "measure (\<lambda>(m, d, pre). size_list (size_prod (\<lambda>_. 0) size) d)")
     (auto dest: size_asData)

definition flattenToMap :: "data \<Rightarrow> string \<Rightarrow> (string \<times> data) list" where
  "flattenToMap d pre = flattenLoop [] d pre"

text \<open>
  The words of the specification, for the comparison with \<open>flattenToMap\<close>: the pairs of a
  path and a record that a walk of the structure meets, in its order. A key whose
  extension is recognised ends a path; any other key is a segment, and its value is walked
  with the segment appended to the prefix; a value that is not a record is skipped.
\<close>

function flattenHierarchical :: "data \<Rightarrow> string \<Rightarrow> (string \<times> data) list" where
  "flattenHierarchical [] pre = []"
| "flattenHierarchical ((key, v) # entries) pre =
     (if \<not> isPlainObject (Some v) then []
      else if isContentFile key then [(joinKey pre key, asData v)]
      else flattenHierarchical (asData v) (joinKey pre key))
     @ flattenHierarchical entries pre"
  by pat_completeness auto
termination
  by (relation "measure (\<lambda>(d, pre). size_list (size_prod (\<lambda>_. 0) size) d)")
     (auto dest: size_asData)

text \<open>
  \<^verbatim>\<open>walkFrontmatterFiles(dir)\<close>, for the node that \<open>dir\<close> resolves to. The walk reaches
  the files below \<open>dir\<close> through the entries of the directories, so
  \<^verbatim>\<open>existsSync(join(dir, name))\<close> is the presence of \<open>name\<close> among the entries, and
  \<^verbatim>\<open>relative(basePath, dir)\<close> is the names walked so far, joined by \<^verbatim>\<open>/\<close>. Each item
  yielded is \<open>relDir\<close>, \<open>filePath\<close> and what \<open>filePath\<close> resolves to. On a path that is
  not a directory nothing exists below it and \<^verbatim>\<open>readdirSync\<close> throws, which is caught.
\<close>

definition joinPath :: "string \<Rightarrow> string \<Rightarrow> string" where
  "joinPath dir name = dir @ ''/'' @ name"

fun isDirectory :: "node \<Rightarrow> bool" where
  "isDirectory (Dir entries) = True"
| "isDirectory (File content) = False"

fun walkFrontmatterFiles :: "string \<Rightarrow> string \<Rightarrow> node \<Rightarrow> (string \<times> string \<times> node option) list" where
  "walkFrontmatterFiles dir relDir (File content) = []"
| "walkFrontmatterFiles dir relDir (Dir entries) =
     (case find (\<lambda>name. map_of entries name \<noteq> None) FRONTMATTER_FILENAMES of
        Some name \<Rightarrow> [(relDir, joinPath dir name, map_of entries name)]
      | None \<Rightarrow> [])
     @ concat (map (\<lambda>(name, child).
          if isDirectory child \<and> \<not> prefix ''.'' name \<and> name \<noteq> ''node_modules''
          then walkFrontmatterFiles (joinPath dir name) (joinKey relDir name) child
          else []) entries)"

text \<open>The inner loop of \<^verbatim>\<open>discoverPerDirFiles\<close>, over the entries of one document.\<close>

fun setEntries :: "string \<Rightarrow> (string \<times> data) list \<Rightarrow> data \<Rightarrow> (string \<times> data) list" where
  "setEntries relDir m [] = m"
| "setEntries relDir m ((key, v) # entries) =
     (if \<not> isPlainObject (Some v) then setEntries relDir m entries
      else setEntries relDir (AList.update (joinKey relDir key) (asData v) m) entries)"

text \<open>The outer loop, over the items that the walk yields; a document that fails to parse ends it.\<close>

fun discoverLoop ::
  "parsers \<Rightarrow> (string \<times> data) list \<Rightarrow> (string \<times> string \<times> node option) list \<Rightarrow>
   error + (string \<times> data) list"
where
  "discoverLoop P m [] = Inr m"
| "discoverLoop P m ((relDir, filePath, n) # items) =
     (case parseDataFile P (readNode filePath n) filePath of
        Inl e \<Rightarrow> Inl e
      | Inr d \<Rightarrow> discoverLoop P (setEntries relDir m d) items)"

definition discoverPerDirFiles :: "parsers \<Rightarrow> fs \<Rightarrow> string \<Rightarrow> error + (string \<times> data) list" where
  "discoverPerDirFiles P fs basePath =
     (case fs basePath of
        None \<Rightarrow> Inr []
      | Some baseNode \<Rightarrow> discoverLoop P [] (walkFrontmatterFiles basePath [] baseNode))"

record loadMapOptions =
  opts_centralFile :: "string option"
  opts_basePath :: string

text \<open>The loop of \<^verbatim>\<open>loadFrontmatterMap\<close> over the entries of \<open>perDirMap\<close>.\<close>

fun mergePerDir :: "(string \<times> data) list \<Rightarrow> (string \<times> data) list \<Rightarrow> (string \<times> data) list" where
  "mergePerDir merged [] = merged"
| "mergePerDir merged ((key, perDirValue) # perDirMap) =
     (case map_of merged key of
        Some centralValue \<Rightarrow>
          mergePerDir (AList.update key (deepMerge centralValue perDirValue) merged) perDirMap
      | None \<Rightarrow> mergePerDir (AList.update key perDirValue merged) perDirMap)"

definition centralMapOf :: "parsers \<Rightarrow> fs \<Rightarrow> loadMapOptions \<Rightarrow> error + (string \<times> data) list" where
  "centralMapOf P fs opts =
     (case (case opts_centralFile opts of
              None \<Rightarrow> Inr []
            | Some f \<Rightarrow> if f = [] then Inr [] else parseCentralFile P fs f) of
        Inl e \<Rightarrow> Inl e
      | Inr centralData \<Rightarrow> Inr (flattenToMap centralData []))"

definition perDirMapOf :: "parsers \<Rightarrow> fs \<Rightarrow> loadMapOptions \<Rightarrow> error + (string \<times> data) list" where
  "perDirMapOf P fs opts =
     (if existsSync fs (opts_basePath opts) then discoverPerDirFiles P fs (opts_basePath opts) else Inr [])"

definition loadFrontmatterMap ::
  "parsers \<Rightarrow> fs \<Rightarrow> loadMapOptions \<Rightarrow> error + (string \<times> data) list"
where
  "loadFrontmatterMap P fs opts =
     (case centralMapOf P fs opts of
        Inl e \<Rightarrow> Inl e
      | Inr centralMap \<Rightarrow>
          (case perDirMapOf P fs opts of
             Inl e \<Rightarrow> Inl e
           | Inr perDirMap \<Rightarrow> Inr (mergePerDir centralMap perDirMap)))"

subsection \<open>A small site\<close>

text \<open>
  A site for the examples: two parsers that know three documents, a base directory with a
  per-directory document under \<open>guides\<close>, a hidden directory and a vendor directory, a
  centralized file, and a file that does not parse.
\<close>

definition exampleParsers :: parsers where
  "exampleParsers =
     \<lparr>JSON_parse = (\<lambda>c.
         if c = ''local''
         then Inr [(''installation.md'', JObj [(''title'', JStr ''Local'')]),
                   (''notes'', JObj [(''pinned'', JBool True)]),
                   (''count'', JNum (Finite 3)), (''tags'', JArr []), (''nothing'', JNull)]
         else Inl ''Unexpected end of JSON input''),
      parseYaml = (\<lambda>c.
         if c = ''central''
         then Inr (Some [(''guides'', JObj [(''installation.md'',
                 JObj [(''title'', JStr ''Central''), (''description'', JStr ''d'')])]),
               (''about.md'', JObj [(''title'', JStr ''About'')])])
         else if c = [] then Inr None
         else Inl ''bad indentation'')\<rparr>"

definition exampleDocs :: node where
  "exampleDocs =
     Dir [(''index.md'', File ''# Home''),
          (''guides'', Dir [(''frontmatter.json'', File ''local''),
                           (''installation.md'', File ''# Installation'')]),
          (''.cache'', Dir [(''frontmatter.json'', File ''{'')]),
          (''node_modules'', Dir [(''frontmatter.yml'', File '': :'')])]"

definition exampleFs :: fs where
  "exampleFs path =
     (if path = ''/site/frontmatter.yml'' then Some (File ''central'')
      else if path = ''/site/broken.json'' then Some (File ''{'')
      else if path = ''/site/docs'' then Some exampleDocs
      else None)"

definition exampleOpts :: loadMapOptions where
  "exampleOpts = \<lparr>opts_centralFile = Some ''/site/frontmatter.yml'', opts_basePath = ''/site/docs''\<rparr>"
section \<open>Properties\<close>

subsection \<open>deepMerge\<close>

lemma deepMerge_step:
  "\<not> blockedKey key \<Longrightarrow>
   deepMerge result ((key, sVal) # source) =
   deepMerge (AList.update key (mergedValue (map_of result key) sVal) result) source"
  by (simp add: blockedKey_def mergedValue_def)

lemma deepMerge_skip:
  "blockedKey key \<Longrightarrow> deepMerge result ((key, sVal) # source) = deepMerge result source"
  by (simp add: blockedKey_def)

declare deepMerge.simps(2) [simp del]

lemma keys_update: "fst ` set (AList.update k v al) = insert k (fst ` set al)"
  using dom_update [of k v al] by (simp add: dom_map_of_conv_image_fst)

lemma deepMerge_keys:
  "fst ` set (deepMerge result source) =
   fst ` set result \<union> {k \<in> fst ` set source. \<not> blockedKey k}"
proof (induction source arbitrary: result)
  case Nil
  then show ?case by simp
next
  case (Cons p source)
  obtain key sVal where p: "p = (key, sVal)" by (cases p)
  show ?case
  proof (cases "blockedKey key")
    case True
    then show ?thesis using Cons.IH [of result] by (simp add: p deepMerge_skip) blast
  next
    case False
    then show ?thesis
      using Cons.IH [of "AList.update key (mergedValue (map_of result key) sVal) result"]
      by (simp add: p deepMerge_step keys_update) blast
  qed
qed

lemma deepMerge_lookup_other:
  "\<forall>(k', s) \<in> set source. k' = k \<longrightarrow> blockedKey k' \<Longrightarrow>
   map_of (deepMerge result source) k = map_of result k"
proof (induction source arbitrary: result)
  case Nil
  then show ?case by simp
next
  case (Cons p source)
  obtain key sVal where p: "p = (key, sVal)" by (cases p)
  have rest: "\<forall>(k', s) \<in> set source. k' = k \<longrightarrow> blockedKey k'"
    using Cons.prems by simp
  show ?case
  proof (cases "blockedKey key")
    case True
    then show ?thesis using Cons.IH [OF rest] by (simp add: p deepMerge_skip)
  next
    case False
    then have "key \<noteq> k" using Cons.prems p by auto
    then show ?thesis
      using False Cons.IH [OF rest] by (simp add: p deepMerge_step update_conv')
  qed
qed

lemma deepMerge_lookup_overlay:
  "distinct (map fst source) \<Longrightarrow> (k, s) \<in> set source \<Longrightarrow> \<not> blockedKey k \<Longrightarrow>
   map_of (deepMerge result source) k = Some (mergedValue (map_of result k) s)"
proof (induction source arbitrary: result)
  case Nil
  then show ?case by simp
next
  case (Cons p source)
  obtain key sVal where p: "p = (key, sVal)" by (cases p)
  show ?case
  proof (cases "key = k")
    case True
    then have s: "sVal = s" and notin: "k \<notin> fst ` set source"
      using Cons.prems p by (auto simp: image_iff)
    have other: "\<forall>(k', s) \<in> set source. k' = k \<longrightarrow> blockedKey k'"
      using notin by (auto simp: image_iff)
    show ?thesis
      using Cons.prems(3) True s deepMerge_lookup_other [OF other]
      by (simp add: p deepMerge_step update_conv')
  next
    case False
    then have mem: "(k, s) \<in> set source" using Cons.prems p by auto
    have d: "distinct (map fst source)" using Cons.prems by simp
    show ?thesis
    proof (cases "blockedKey key")
      case True
      then show ?thesis using Cons.IH [OF d mem Cons.prems(3)]
        by (simp add: p deepMerge_skip)
    next
      case nb: False
      show ?thesis
        using Cons.IH [OF d mem Cons.prems(3),
            of "AList.update key (mergedValue (map_of result key) sVal) result"] False nb
        by (simp add: p deepMerge_step update_conv')
    qed
  qed
qed

text \<open>A record on which every round of the loop stores what is already there is returned as it is.\<close>

lemma deepMerge_fixed:
  "\<forall>(k, s) \<in> set source. \<not> blockedKey k \<longrightarrow> map_of m k = Some (mergedValue (map_of m k) s) \<Longrightarrow>
   deepMerge m source = m"
proof (induction source)
  case Nil
  then show ?case by simp
next
  case (Cons p source)
  obtain key sVal where p: "p = (key, sVal)" by (cases p)
  have rest: "deepMerge m source = m" using Cons by simp
  show ?case
  proof (cases "blockedKey key")
    case True
    then show ?thesis using rest by (simp add: p deepMerge_skip)
  next
    case False
    then have "map_of m key = Some (mergedValue (map_of m key) sVal)"
      using Cons.prems p by auto
    then have "AList.update key (mergedValue (map_of m key) sVal) m = m"
      by (rule update_triv)
    then show ?thesis using False rest by (simp add: p deepMerge_step)
  qed
qed

lemma deepMerge_self_json:
  "distinctKeys j \<Longrightarrow> deepMerge (asData j) (asData j) = asData j"
proof (induction j)
  case (JObj kvs)
  have "\<forall>(k, s) \<in> set kvs. \<not> blockedKey k \<longrightarrow>
          map_of kvs k = Some (mergedValue (map_of kvs k) s)"
  proof (clarify)
    fix k s assume mem: "(k, s) \<in> set kvs"
    have d: "distinct (map fst kvs)" using JObj.prems by simp
    have look: "map_of kvs k = Some s" using d mem by simp
    have ds: "distinctKeys s" using JObj.prems mem by (auto simp: list_all_iff)
    have "deepMerge (asData s) (asData s) = asData s"
      using JObj.IH [of "(k, s)" s] mem ds by simp
    then have "mergedValue (Some s) s = s"
      by (cases s) (simp_all add: mergedValue_def)
    then show "map_of kvs k = Some (mergedValue (map_of kvs k) s)" using look by simp
  qed
  then show ?case using deepMerge_fixed [of kvs kvs] by simp
qed simp_all

lemma deepMerge_idem_json:
  "distinctKeys j \<Longrightarrow> deepMerge (deepMerge a (asData j)) (asData j) = deepMerge a (asData j)"
proof (induction j arbitrary: a)
  case (JObj kvs)
  have d: "distinct (map fst kvs)" using JObj.prems by simp
  have "\<forall>(k, s) \<in> set kvs. \<not> blockedKey k \<longrightarrow>
          map_of (deepMerge a kvs) k = Some (mergedValue (map_of (deepMerge a kvs) k) s)"
  proof (clarify)
    fix k s assume mem: "(k, s) \<in> set kvs" and nb: "\<not> blockedKey k"
    have ds: "distinctKeys s" using JObj.prems mem by (auto simp: list_all_iff)
    have look: "map_of (deepMerge a kvs) k = Some (mergedValue (map_of a k) s)"
      by (rule deepMerge_lookup_overlay [OF d mem nb])
    have "mergedValue (Some (mergedValue (map_of a k) s)) s = mergedValue (map_of a k) s"
    proof (cases "isPlainObject (map_of a k) \<and> isPlainObject (Some s)")
      case True
      have "deepMerge (deepMerge (asData (the (map_of a k))) (asData s)) (asData s)
            = deepMerge (asData (the (map_of a k))) (asData s)"
        using JObj.IH [of "(k, s)" s] mem ds by simp
      then show ?thesis using True by (simp add: mergedValue_def)
    next
      case False
      have "deepMerge (asData s) (asData s) = asData s"
        by (rule deepMerge_self_json [OF ds])
      then show ?thesis using False by (cases s) (auto simp: mergedValue_def)
    qed
    then show "map_of (deepMerge a kvs) k = Some (mergedValue (map_of (deepMerge a kvs) k) s)"
      using look by simp
  qed
  then show ?case using deepMerge_fixed [of kvs "deepMerge a kvs"] by simp
qed simp_all

text \<open>
  C1. The keys of \<open>deepMerge base overlay\<close> are the keys of \<open>base\<close> and the keys of
  \<open>overlay\<close> that are not blocked. Under a key that both have and that is not blocked,
  the result holds the recursive merge of the two values when both are plain records, and
  the overlay's value as it is otherwise: an array replaces what was there, and so does an
  explicit null.
\<close>

theorem deepMerge_result_guarantee:
  assumes "distinct (map fst overlay)"
  shows "fst ` set (deepMerge base overlay) =
           fst ` set base \<union> {k \<in> fst ` set overlay. \<not> blockedKey k} \<and>
         (\<not> blockedKey k \<and> map_of base k = Some t \<and> map_of overlay k = Some s \<longrightarrow>
            map_of (deepMerge base overlay) k =
              Some (if isPlainObject (Some t) \<and> isPlainObject (Some s)
                    then JObj (deepMerge (asData t) (asData s)) else s))"
proof (intro conjI impI)
  show "fst ` set (deepMerge base overlay) =
          fst ` set base \<union> {k \<in> fst ` set overlay. \<not> blockedKey k}"
    by (rule deepMerge_keys)
next
  assume h: "\<not> blockedKey k \<and> map_of base k = Some t \<and> map_of overlay k = Some s"
  then have mem: "(k, s) \<in> set overlay" by (simp add: map_of_SomeD)
  have "map_of (deepMerge base overlay) k = Some (mergedValue (map_of base k) s)"
    using deepMerge_lookup_overlay [OF assms mem] h by simp
  then show "map_of (deepMerge base overlay) k =
      Some (if isPlainObject (Some t) \<and> isPlainObject (Some s)
            then JObj (deepMerge (asData t) (asData s)) else s)"
    using h by (simp add: mergedValue_def)
qed

theorem deepMerge_result_guarantee_witness:
  "distinct (map fst [(''tags'', JArr [JStr ''b'', JStr ''c'']), (''a'', JNull)]) \<and>
   fst ` set (deepMerge [(''tags'', JArr [JStr ''a'']), (''a'', JNum (Finite 1))]
                [(''tags'', JArr [JStr ''b'', JStr ''c'']), (''a'', JNull)]) = {''tags'', ''a''} \<and>
   map_of (deepMerge [(''tags'', JArr [JStr ''a'']), (''a'', JNum (Finite 1))]
             [(''tags'', JArr [JStr ''b'', JStr ''c'']), (''a'', JNull)]) ''tags''
     = Some (JArr [JStr ''b'', JStr ''c'']) \<and>
   map_of (deepMerge [(''tags'', JArr [JStr ''a'']), (''a'', JNum (Finite 1))]
             [(''tags'', JArr [JStr ''b'', JStr ''c'']), (''a'', JNull)]) ''a'' = Some JNull"
  using deepMerge_result_guarantee
      [of "[(''tags'', JArr [JStr ''b'', JStr ''c'']), (''a'', JNull)]"
          "[(''tags'', JArr [JStr ''a'']), (''a'', JNum (Finite 1))]"
          "''tags''" "JArr [JStr ''a'']" "JArr [JStr ''b'', JStr ''c'']"]
    deepMerge_result_guarantee
      [of "[(''tags'', JArr [JStr ''b'', JStr ''c'']), (''a'', JNull)]"
          "[(''tags'', JArr [JStr ''a'']), (''a'', JNum (Finite 1))]"
          "''a''" "JNum (Finite 1)" "JNull"]
  by (auto simp: blockedKey_def)

text \<open>
  C2, as stated, fails: the guard stands in the loop over the overlay's keys only. A
  blocked key of the base is copied by the spread, and a blocked key inside a value of the
  overlay that is stored as it is stays inside that value.
\<close>

theorem deepMerge_blocked_counterexample:
  "''constructor'' \<in> fst ` set (deepMerge [(''constructor'', JStr ''x'')] []) \<and>
   deepMerge [] [(''a'', JObj [(''__proto__'', JNull)])] = [(''a'', JObj [(''__proto__'', JNull)])]"
  by (simp add: deepMerge.simps)

text \<open>
  C2, amended. A blocked key of the overlay is never copied and never recursed into: under
  \<open>__proto__\<close> and under \<open>constructor\<close> the result holds what the base holds, which is
  nothing when the base has no such key.
\<close>

theorem deepMerge_blocked_from_base_only:
  "blockedKey k \<longrightarrow> map_of (deepMerge base overlay) k = map_of base k"
proof
  assume "blockedKey k"
  then have "\<forall>(k', s) \<in> set overlay. k' = k \<longrightarrow> blockedKey k'" by auto
  then show "map_of (deepMerge base overlay) k = map_of base k"
    by (rule deepMerge_lookup_other)
qed

theorem deepMerge_blocked_from_base_only_witness:
  "blockedKey ''__proto__'' \<and>
   map_of (deepMerge [(''a'', JNull)]
            [(''__proto__'', JObj [(''polluted'', JBool True)]), (''constructor'', JStr ''bad'')])
      ''__proto__'' = None"
  using deepMerge_blocked_from_base_only
      [of "''__proto__''" "[(''a'', JNull)]"
          "[(''__proto__'', JObj [(''polluted'', JBool True)]), (''constructor'', JStr ''bad'')]"]
  by (simp add: blockedKey_def)

text \<open>
  C3. Applying the same overlay a second time changes nothing, for an overlay whose
  records have each key once.
\<close>

theorem deepMerge_idempotent:
  "distinctKeys (JObj b) \<Longrightarrow> deepMerge (deepMerge a b) b = deepMerge a b"
  using deepMerge_idem_json [of "JObj b" a] by simp

theorem deepMerge_idempotent_witness:
  "distinctKeys (JObj [(''sidebar'', JObj [(''order'', JNum (Finite 5))]), (''tags'', JArr [])]) \<and>
   deepMerge
     (deepMerge [(''sidebar'', JObj [(''order'', JNum (Finite 1)), (''label'', JStr ''Guide'')])]
        [(''sidebar'', JObj [(''order'', JNum (Finite 5))]), (''tags'', JArr [])])
     [(''sidebar'', JObj [(''order'', JNum (Finite 5))]), (''tags'', JArr [])]
   = [(''sidebar'', JObj [(''order'', JNum (Finite 5)), (''label'', JStr ''Guide'')]),
      (''tags'', JArr [])]"
  using deepMerge_idempotent
      [of "[(''sidebar'', JObj [(''order'', JNum (Finite 5))]), (''tags'', JArr [])]"
          "[(''sidebar'', JObj [(''order'', JNum (Finite 1)), (''label'', JStr ''Guide'')])]"]
  by (simp add: deepMerge.simps)

subsection \<open>extractH1\<close>

























text \<open>The passes of \<open>flattenInlineMarkdown\<close> on text with one piece of inline markup.\<close>

lemma replaceAll_prefix:
  "\<forall>c \<in> set p. \<forall>cs. m (c # cs) = None \<Longrightarrow> replaceAll m (p @ s) = p @ replaceAll m s"
  by (induction p) simp_all

lemma replaceAll_id:
  "\<forall>c \<in> set s. \<forall>cs. m (c # cs) = None \<Longrightarrow> replaceAll m s = s"
  using replaceAll_prefix [of s m "[]"] by simp


lemma matchImage_None: "c \<noteq> CHR ''!'' \<Longrightarrow> matchImage (c # cs) = None"
  by (simp add: matchImage_def)

lemma matchBrackets_None: "c \<noteq> CHR ''['' \<Longrightarrow> matchBrackets (c # cs) = None"
  by (simp add: matchBrackets_def)

lemma matchBold_None: "c \<noteq> CHR ''*'' \<Longrightarrow> c \<noteq> CHR ''_'' \<Longrightarrow> matchBold (c # cs) = None"
  by (simp add: matchBold_def matchDelimited_def)

lemma matchItalic_None: "c \<noteq> CHR ''*'' \<Longrightarrow> c \<noteq> CHR ''_'' \<Longrightarrow> matchItalic (c # cs) = None"
  by (simp add: matchItalic_def matchDelimited_def)

lemma matchStrike_None: "c \<noteq> CHR ''~'' \<Longrightarrow> matchStrike (c # cs) = None"
  by (simp add: matchStrike_def matchDelimited_def)

lemma matchCode_None: "c \<noteq> CHR 0x60 \<Longrightarrow> matchCode (c # cs) = None"
  by (simp add: matchCode_def)


lemma lazyUntil_none:
  "d \<noteq> [] \<Longrightarrow> hd d \<notin> set q \<Longrightarrow> lazyUntil d q = None"
proof (induction q)
  case Nil
  then show ?case by simp
next
  case (Cons c q)
  then have "\<not> prefix d (c # q)" by (cases d) auto
  then show ?case using Cons by simp
qed


lemma plainText_append [simp]: "plainText (a @ b) \<longleftrightarrow> plainText a \<and> plainText b"
  by (auto simp: plainText_def)

lemma no_image: "\<forall>c \<in> set s. c \<noteq> CHR ''!'' \<Longrightarrow> replaceAll matchImage s = s"
  by (rule replaceAll_id) (simp add: matchImage_None)

lemma no_brackets: "\<forall>c \<in> set s. c \<noteq> CHR ''['' \<Longrightarrow> replaceAll matchBrackets s = s"
  by (rule replaceAll_id) (simp add: matchBrackets_None)

lemma no_bold: "\<forall>c \<in> set s. c \<noteq> CHR ''*'' \<and> c \<noteq> CHR ''_'' \<Longrightarrow> replaceAll matchBold s = s"
  by (rule replaceAll_id) (simp add: matchBold_None)

lemma no_italic: "\<forall>c \<in> set s. c \<noteq> CHR ''*'' \<and> c \<noteq> CHR ''_'' \<Longrightarrow> replaceAll matchItalic s = s"
  by (rule replaceAll_id) (simp add: matchItalic_None)

lemma no_strike: "\<forall>c \<in> set s. c \<noteq> CHR ''~'' \<Longrightarrow> replaceAll matchStrike s = s"
  by (rule replaceAll_id) (simp add: matchStrike_None)

lemma no_code: "\<forall>c \<in> set s. c \<noteq> CHR 0x60 \<Longrightarrow> replaceAll matchCode s = s"
  by (rule replaceAll_id) (simp add: matchCode_None)

lemma passes_plain:
  assumes "plainText s"
  shows "replaceAll matchImage s = s" and "replaceAll matchBrackets s = s"
    and "replaceAll matchBold s = s" and "replaceAll matchItalic s = s"
    and "replaceAll matchStrike s = s" and "replaceAll matchCode s = s"
  using assms
  by (simp_all add: plainText_def no_image no_brackets no_bold no_italic no_strike no_code)


lemma flatten_from_brackets:
  "plainText s \<Longrightarrow>
   trim (replaceAll matchCode (replaceAll matchStrike (replaceAll matchItalic
     (replaceAll matchBold (replaceAll matchBrackets s))))) = trim s"
  by (simp add: passes_plain)



















lemma matchBrackets_consumes:
  "matchBrackets s = Some (out, rest) \<Longrightarrow> length rest < length s"
proof -
  assume a: "matchBrackets s = Some (out, rest)"
  then obtain c t where s: "s = c # t" by (cases s) (simp_all add: matchBrackets_def)
  from a s obtain c1 c2 u where u: "dropWhile (\<lambda>c. c \<noteq> CHR '']'') t = c1 # c2 # u"
    by (auto simp: matchBrackets_def split: if_splits list.splits)
  from a s u obtain c3 where r: "dropWhile (\<lambda>c. c \<noteq> CHR '')'') u = c3 # rest"
    by (auto simp: matchBrackets_def split: if_splits list.splits)
  have "length rest < length u"
    using length_dropWhile_le [of "\<lambda>c. c \<noteq> CHR '')''" u] r by simp
  moreover have "length u < length t"
    using length_dropWhile_le [of "\<lambda>c. c \<noteq> CHR '']''" t] u by simp
  ultimately show ?thesis using s by simp
qed

lemma lazyUntil_length: "lazyUntil d s = Some (inner, rest) \<Longrightarrow> length rest \<le> length s"
proof (induction s arbitrary: inner)
  case Nil
  then show ?case by (simp split: if_splits)
next
  case (Cons c cs)
  show ?case
  proof (cases "prefix d (c # cs)")
    case True
    then show ?thesis using Cons.prems by auto
  next
    case False
    then obtain inner' where "lazyUntil d cs = Some (inner', rest)"
      using Cons.prems by (auto split: if_splits)
    then show ?thesis using Cons.IH by fastforce
  qed
qed

lemma matchDelimited_consumes:
  "d \<noteq> [] \<Longrightarrow> matchDelimited d s = Some (out, rest) \<Longrightarrow> length rest < length s"
proof -
  assume d: "d \<noteq> []" and a: "matchDelimited d s = Some (out, rest)"
  then have p: "prefix d s" and l: "lazyUntil d (drop (length d) s) = Some (out, rest)"
    by (auto simp: matchDelimited_def split: if_splits)
  have "length d \<le> length s" using p by (rule prefix_length_le)
  then have "length (drop (length d) s) < length s" using d by (cases d) auto
  then show ?thesis using lazyUntil_length [OF l] by simp
qed

lemma matchCode_consumes: "matchCode s = Some (out, rest) \<Longrightarrow> length rest < length s"
proof -
  assume a: "matchCode s = Some (out, rest)"
  then obtain c t where s: "s = c # t" by (cases s) (simp_all add: matchCode_def)
  from a s obtain c' where r: "dropWhile (\<lambda>c. c \<noteq> CHR 0x60) t = c' # rest"
    by (auto simp: matchCode_def split: if_splits list.splits)
  have "length rest < length t"
    using length_dropWhile_le [of "\<lambda>c. c \<noteq> CHR 0x60" t] r by simp
  then show ?thesis using s by simp
qed

text \<open>Every matcher of \<open>flattenInlineMarkdown\<close> consumes text: the test in \<open>replaceAll\<close> holds.\<close>

lemma matchers_consume:
  assumes "m = matchImage \<or> m = matchBrackets \<or> m = matchBold \<or> m = matchItalic \<or>
           m = matchStrike \<or> m = matchCode"
    and "m s = Some (out, rest)"
  shows "length rest < length s"
proof -
  have img: "matchImage s = Some (out, rest) \<Longrightarrow> length rest < length s"
  proof -
    assume a: "matchImage s = Some (out, rest)"
    then obtain c t where s: "s = c # t" by (cases s) (simp_all add: matchImage_def)
    then have "matchBrackets t = Some (out, rest)"
      using a by (simp add: matchImage_def split: if_splits)
    then show ?thesis using matchBrackets_consumes s by fastforce
  qed
  have bold: "matchBold s = Some (out, rest) \<Longrightarrow> length rest < length s"
    using matchDelimited_consumes [of "''**''" s out rest]
      matchDelimited_consumes [of "''__''" s out rest]
    by (auto simp: matchBold_def split: option.splits)
  have ital: "matchItalic s = Some (out, rest) \<Longrightarrow> length rest < length s"
    using matchDelimited_consumes [of "''*''" s out rest]
      matchDelimited_consumes [of "''_''" s out rest]
    by (auto simp: matchItalic_def split: option.splits)
  have strike: "matchStrike s = Some (out, rest) \<Longrightarrow> length rest < length s"
    using matchDelimited_consumes [of "''~~''" s out rest] by (simp add: matchStrike_def)
  show ?thesis
    using assms img bold ital strike matchBrackets_consumes [of s out rest]
      matchCode_consumes [of s out rest]
    by blast
qed




subsection \<open>The store.set wrapper\<close>

text \<open>
  C4 is what the tests of the loader expect and is not what this wrapper does. The entry
  of the test ``does not strip H1 from rendered HTML when H1 is not first content'': its
  body has no leading heading, so the body stays, yet the first \<open>h1\<close> element leaves the
  rendered HTML and the first heading of depth 1 leaves the list.
\<close>

theorem storeSetWrapper_buried_heading:
  "extractH1 ''Some intro text.\<newline>\<newline># Buried Heading\<newline>\<newline>More content.'' = None \<and>
   storeSetWrapper
     \<lparr>entry_id = ''buried-h1'', entry_data = [(''title'', JStr ''Has Buried H1'')],
      entry_body = Some ''Some intro text.\<newline>\<newline># Buried Heading\<newline>\<newline>More content.'',
      entry_rendered = Some
        \<lparr>html = ''<p>Some intro text.</p>\<newline><h1>Buried Heading</h1>\<newline><p>More content.</p>'',
         metadata = Some \<lparr>headings = Some
           [\<lparr>depth = 1, slug = ''buried-heading'', heading_text = ''Buried Heading''\<rparr>]\<rparr>\<rparr>\<rparr>
   = \<lparr>entry_id = ''buried-h1'', entry_data = [(''title'', JStr ''Has Buried H1'')],
      entry_body = Some ''Some intro text.\<newline>\<newline># Buried Heading\<newline>\<newline>More content.'',
      entry_rendered = Some
        \<lparr>html = ''<p>Some intro text.</p>\<newline><p>More content.</p>'',
         metadata = Some \<lparr>headings = Some []\<rparr>\<rparr>\<rparr>"
  by code_simp

subsection \<open>The parseData wrapper\<close>

text \<open>
  C5, as stated, fails: the wrapper tests \<^verbatim>\<open>!merged.title\<close>, and the empty string is
  falsy. A file that declares the title \<^verbatim>\<open>''\<close> and starts with a heading gets the
  heading as its title.
\<close>

theorem parseDataWrapper_empty_title_counterexample:
  "map_of (props_data (parseDataWrapper (\<lambda>p. p) [] (\<lambda>p. Some ''# Heading\<newline>\<newline>Text'')
      \<lparr>props_id = ''a'', props_data = [(''title'', JStr [])], props_filePath = Some ''a.md''\<rparr>))
     ''title'' = Some (JStr ''Heading'')"
  by code_simp

text \<open>
  C5, amended. For a file with a path, the wrapper passes on the merged record as it is
  when its \<open>title\<close> is truthy: such a title is never overwritten. When the title is absent
  or falsy (\<open>null\<close>, \<open>false\<close>, \<open>0\<close>, \<open>NaN\<close> or the empty string) and the body of the file
  has a leading heading, the title becomes the text of that heading; when the file cannot
  be read or has no leading heading, the merged record is passed on as it is.
\<close>

theorem parseDataWrapper_title:
  assumes "props_filePath p = Some fp" and "fp \<noteq> []"
    and "merged = deepMerge (case map_of fmMap (relPath fp) of Some d \<Rightarrow> d | None \<Rightarrow> [])
                    (props_data p)"
  shows "(truthy (map_of merged ''title'') \<longrightarrow>
            props_data (parseDataWrapper relPath fmMap readFile p) = merged) \<and>
         (\<not> truthy (map_of merged ''title'') \<and> readFile fp = Some raw \<and>
            extractH1 (bodyOf raw) = Some h \<longrightarrow>
            props_data (parseDataWrapper relPath fmMap readFile p)
              = AList.update ''title'' (JStr (fst h)) merged \<and>
            map_of (props_data (parseDataWrapper relPath fmMap readFile p)) ''title''
              = Some (JStr (fst h))) \<and>
         (readFile fp = None \<or> (readFile fp = Some raw \<and> extractH1 (bodyOf raw) = None) \<longrightarrow>
            props_data (parseDataWrapper relPath fmMap readFile p) = merged)"
  using assms by (auto simp: parseDataWrapper_def Let_def update_conv')

theorem parseDataWrapper_title_witness:
  "props_filePath \<lparr>props_id = ''a'', props_data = [(''draft'', JBool True)],
      props_filePath = Some ''a.md''\<rparr> = Some ''a.md'' \<and> ''a.md'' \<noteq> [] \<and>
   \<not> truthy (map_of (deepMerge [(''sidebar'', JObj [])] [(''draft'', JBool True)]) ''title'') \<and>
   extractH1 (bodyOf ''---\<newline>draft: true\<newline>---\<newline># Installation Guide\<newline>\<newline>Steps.'')
     = Some (''Installation Guide'', ''Steps.'') \<and>
   props_data (parseDataWrapper (\<lambda>p. p) [(''a.md'', [(''sidebar'', JObj [])])]
      (\<lambda>p. Some ''---\<newline>draft: true\<newline>---\<newline># Installation Guide\<newline>\<newline>Steps.'')
      \<lparr>props_id = ''a'', props_data = [(''draft'', JBool True)], props_filePath = Some ''a.md''\<rparr>)
   = [(''sidebar'', JObj []), (''draft'', JBool True), (''title'', JStr ''Installation Guide'')]"
proof -
  have m: "deepMerge [(''sidebar'', JObj [])] [(''draft'', JBool True)]
           = [(''sidebar'', JObj []), (''draft'', JBool True)]"
    by code_simp
  have f: "\<not> truthy (map_of (deepMerge [(''sidebar'', JObj [])] [(''draft'', JBool True)]) ''title'')"
    by code_simp
  have e: "extractH1 (bodyOf ''---\<newline>draft: true\<newline>---\<newline># Installation Guide\<newline>\<newline>Steps.'')
     = Some (''Installation Guide'', ''Steps.'')"
    by code_simp
  have "props_data (parseDataWrapper (\<lambda>p. p) [(''a.md'', [(''sidebar'', JObj [])])]
      (\<lambda>p. Some ''---\<newline>draft: true\<newline>---\<newline># Installation Guide\<newline>\<newline>Steps.'')
      \<lparr>props_id = ''a'', props_data = [(''draft'', JBool True)], props_filePath = Some ''a.md''\<rparr>)
   = AList.update ''title'' (JStr ''Installation Guide'')
       (deepMerge [(''sidebar'', JObj [])] [(''draft'', JBool True)])"
    using parseDataWrapper_title
        [of "\<lparr>props_id = ''a'', props_data = [(''draft'', JBool True)],
               props_filePath = Some ''a.md''\<rparr>" "''a.md''"
            "deepMerge [(''sidebar'', JObj [])] [(''draft'', JBool True)]"
            "[(''a.md'', [(''sidebar'', JObj [])])]" "\<lambda>p. p"
            "\<lambda>p. Some ''---\<newline>draft: true\<newline>---\<newline># Installation Guide\<newline>\<newline>Steps.''"
            "''---\<newline>draft: true\<newline>---\<newline># Installation Guide\<newline>\<newline>Steps.''"
            "(''Installation Guide'', ''Steps.'')"]
      f e by simp
  then show ?thesis using f e by (simp add: m)
qed


subsection \<open>flattenToMap\<close>

lemma map_of_rev_distinct: "distinct (map fst xs) \<Longrightarrow> map_of (rev xs) = map_of xs"
proof (induction xs)
  case Nil
  then show ?case by simp
next
  case (Cons x xs)
  obtain k v where x: "x = (k, v)" by (cases x)
  have none: "map_of xs k = None" using Cons.prems x by (simp add: map_of_eq_None_iff)
  have "map_of (rev (x # xs)) = map_of [x] ++ map_of xs"
    using Cons by simp
  also have "\<dots> = map_of (x # xs)"
    using none by (auto simp: x fun_eq_iff map_add_def split: option.splits)
  finally show ?case .
qed

lemma map_of_setAll: "map_of (setAll nested m) = map_of m ++ map_of (rev nested)"
proof (induction nested arbitrary: m)
  case Nil
  then show ?case by (simp add: setAll_def)
next
  case (Cons kv nested)
  obtain k v where kv: "kv = (k, v)" by (cases kv)
  have "map_of (setAll (kv # nested) m) = map_of (setAll nested (AList.update k v m))"
    by (simp add: setAll_def kv)
  also have "\<dots> = map_of (AList.update k v m) ++ map_of (rev nested)"
    by (rule Cons.IH)
  also have "\<dots> = map_of m ++ map_of (rev (kv # nested))"
    by (simp add: kv update_conv' map_add_def fun_eq_iff split: option.splits)
  finally show ?case .
qed

lemma distinct_setAll: "distinct (map fst m) \<Longrightarrow> distinct (map fst (setAll nested m))"
proof (induction nested arbitrary: m)
  case Nil
  then show ?case by (simp add: setAll_def)
next
  case (Cons kv nested)
  obtain k v where kv: "kv = (k, v)" by (cases kv)
  have "distinct (map fst (AList.update k v m))" using Cons.prems by (rule distinct_update)
  then have "distinct (map fst (setAll nested (AList.update k v m)))" by (rule Cons.IH)
  then show ?case by (simp add: setAll_def kv)
qed

lemma flattenLoop_distinct:
  "distinct (map fst m) \<Longrightarrow> distinct (map fst (flattenLoop m d pre))"
proof (induction m d pre rule: flattenLoop.induct)
  case (1 m pre)
  then show ?case by simp
next
  case (2 m key v entries pre)
  show ?case
  proof (cases "isPlainObject (Some v)")
    case False
    then show ?thesis using 2 by simp
  next
    case True
    show ?thesis
    proof (cases "isContentFile key")
      case leaf: True
      have "distinct (map fst (AList.update (joinKey pre key) (asData v) m))"
        using "2.prems" by (rule distinct_update)
      then show ?thesis using True leaf "2.IH"(2) by simp
    next
      case inner: False
      have "distinct (map fst (setAll (flattenLoop [] (asData v) (joinKey pre key)) m))"
        using "2.prems" by (rule distinct_setAll)
      then show ?thesis using True inner "2.IH"(4) by simp
    qed
  qed
qed

lemma flattenLoop_lookup:
  "map_of (flattenLoop m d pre) = map_of m ++ map_of (rev (flattenHierarchical d pre))"
proof (induction m d pre rule: flattenLoop.induct)
  case (1 m pre)
  then show ?case by simp
next
  case (2 m key v entries pre)
  show ?case
  proof (cases "isPlainObject (Some v)")
    case False
    then show ?thesis using "2.IH"(1) by simp
  next
    case True
    show ?thesis
    proof (cases "isContentFile key")
      case leaf: True
      have "map_of (flattenLoop m ((key, v) # entries) pre)
            = map_of (AList.update (joinKey pre key) (asData v) m)
                ++ map_of (rev (flattenHierarchical entries pre))"
        using True leaf "2.IH"(2) by simp
      then show ?thesis using True leaf
        by (simp add: update_conv' map_add_def fun_eq_iff split: option.splits)
    next
      case inner: False
      let ?n = "flattenLoop [] (asData v) (joinKey pre key)"
      have n: "map_of ?n = map_of (rev (flattenHierarchical (asData v) (joinKey pre key)))"
        using True inner "2.IH"(3) by simp
      have "distinct (map fst ?n)" by (rule flattenLoop_distinct) simp
      then have rn: "map_of (rev ?n) = map_of ?n" by (rule map_of_rev_distinct)
      have "map_of (flattenLoop m ((key, v) # entries) pre)
            = map_of (setAll ?n m) ++ map_of (rev (flattenHierarchical entries pre))"
        using True inner "2.IH"(4) by simp
      then show ?thesis using True inner
        by (simp add: map_of_setAll rn n)
    qed
  qed
qed

lemma flattenToMap_refines:
  "map_of (flattenToMap d pre) = map_of (rev (flattenHierarchical d pre))"
  by (simp add: flattenToMap_def flattenLoop_lookup)


lemma flattenToMap_example:
  "flattenToMap [(''guides'', JObj [(''installation.md'', JObj r)])] []
     = [(''guides/installation.md'', r)]"
  "flattenToMap [(''guides/installation.md'', JObj r)] [] = [(''guides/installation.md'', r)]"
proof -
  have a: "isContentFile ''installation.md''" by code_simp
  have b: "\<not> isContentFile ''guides''" by code_simp
  have c: "isContentFile ''guides/installation.md''" by code_simp
  show "flattenToMap [(''guides'', JObj [(''installation.md'', JObj r)])] []
     = [(''guides/installation.md'', r)]"
    by (simp add: flattenToMap_def a b joinKey_def setAll_def)
  show "flattenToMap [(''guides/installation.md'', JObj r)] [] = [(''guides/installation.md'', r)]"
    by (simp add: flattenToMap_def c joinKey_def)
qed


subsection \<open>loadFrontmatterMap and discoverPerDirFiles\<close>

lemma mergePerDir_other:
  "key \<notin> fst ` set perDirMap \<Longrightarrow> map_of (mergePerDir merged perDirMap) key = map_of merged key"
proof (induction perDirMap arbitrary: merged)
  case Nil
  then show ?case by simp
next
  case (Cons kv perDirMap)
  obtain k v where kv: "kv = (k, v)" by (cases kv)
  have ne: "k \<noteq> key" and rest: "key \<notin> fst ` set perDirMap" using Cons.prems kv by auto
  show ?case
    using ne Cons.IH [OF rest] by (simp add: kv update_conv' split: option.splits)
qed

lemma mergePerDir_lookup:
  "distinct (map fst perDirMap) \<Longrightarrow>
   map_of (mergePerDir merged perDirMap) path =
     (case map_of perDirMap path of
        None \<Rightarrow> map_of merged path
      | Some perDirValue \<Rightarrow>
          (case map_of merged path of
             None \<Rightarrow> Some perDirValue
           | Some centralValue \<Rightarrow> Some (deepMerge centralValue perDirValue)))"
proof (induction perDirMap arbitrary: merged)
  case Nil
  then show ?case by simp
next
  case (Cons kv perDirMap)
  obtain k v where kv: "kv = (k, v)" by (cases kv)
  have d: "distinct (map fst perDirMap)" and notin: "k \<notin> fst ` set perDirMap"
    using Cons.prems kv by auto
  show ?case
  proof (cases "k = path")
    case True
    show ?thesis
      using True mergePerDir_other [OF notin]
      by (simp add: kv update_conv' split: option.splits)
  next
    case False
    show ?thesis
      using False Cons.IH [OF d]
      by (simp add: kv update_conv' split: option.splits)
  qed
qed

lemma setEntries_distinct:
  "distinct (map fst m) \<Longrightarrow> distinct (map fst (setEntries relDir m d))"
proof (induction d arbitrary: m)
  case Nil
  then show ?case by simp
next
  case (Cons kv d)
  obtain k v where kv: "kv = (k, v)" by (cases kv)
  show ?case using Cons distinct_update [of m "joinKey relDir k" "asData v"] by (simp add: kv)
qed

lemma discoverLoop_distinct:
  "distinct (map fst m) \<Longrightarrow> discoverLoop P m items = Inr m' \<Longrightarrow> distinct (map fst m')"
proof (induction items arbitrary: m)
  case Nil
  then show ?case by simp
next
  case (Cons it items)
  obtain relDir filePath n where it: "it = (relDir, filePath, n)" by (cases it)
  show ?case
  proof (cases "parseDataFile P (readNode filePath n) filePath")
    case (Inl e)
    then show ?thesis using Cons.prems by (simp add: it)
  next
    case (Inr d)
    have "distinct (map fst (setEntries relDir m d))"
      using Cons.prems(1) by (rule setEntries_distinct)
    then show ?thesis using Cons.IH Cons.prems(2) Inr by (simp add: it)
  qed
qed

lemma perDirMapOf_distinct: "perDirMapOf P fs opts = Inr perDirMap \<Longrightarrow> distinct (map fst perDirMap)"
proof -
  assume a: "perDirMapOf P fs opts = Inr perDirMap"
  show ?thesis
  proof (cases "existsSync fs (opts_basePath opts)")
    case False
    then show ?thesis using a by (simp add: perDirMapOf_def)
  next
    case True
    then obtain baseNode where b: "fs (opts_basePath opts) = Some baseNode"
      by (auto simp: existsSync_def)
    then have "discoverLoop P [] (walkFrontmatterFiles (opts_basePath opts) [] baseNode) = Inr perDirMap"
      using a True by (simp add: perDirMapOf_def discoverPerDirFiles_def)
    then show ?thesis using discoverLoop_distinct [of "[]"] by simp
  qed
qed


lemma setEntries_keys:
  "fst ` set (setEntries relDir m d) =
   fst ` set m \<union> {joinKey relDir key | key v. (key, v) \<in> set d \<and> isPlainObject (Some v)}"
proof (induction d arbitrary: m)
  case Nil
  then show ?case by simp
next
  case (Cons kv d)
  obtain k v where kv: "kv = (k, v)" by (cases kv)
  show ?case
  proof (cases "isPlainObject (Some v)")
    case True
    then show ?thesis
      using Cons.IH [of "AList.update (joinKey relDir k) (asData v) m"]
      by (simp add: kv keys_update) blast
  next
    case False
    then show ?thesis using Cons.IH [of m] by (simp add: kv) blast
  qed
qed

lemma set_update_subset: "set (AList.update k v al) \<subseteq> insert (k, v) (set al)"
  by (induction al) auto

lemma setEntries_values:
  "(path, r) \<in> set (setEntries relDir m d) \<Longrightarrow>
   (path, r) \<in> set m \<or> (\<exists>key. (key, JObj r) \<in> set d \<and> path = joinKey relDir key)"
proof (induction d arbitrary: m)
  case Nil
  then show ?case by simp
next
  case (Cons kv d)
  obtain k v where kv: "kv = (k, v)" by (cases kv)
  show ?case
  proof (cases v)
    case (JObj r')
    then have "(path, r) \<in> set (AList.update (joinKey relDir k) r' m) \<or>
               (\<exists>key. (key, JObj r) \<in> set d \<and> path = joinKey relDir key)"
      using Cons.IH [of "AList.update (joinKey relDir k) r' m"] Cons.prems by (simp add: kv)
    then show ?thesis using set_update_subset [of "joinKey relDir k" r' m] JObj kv by auto
  qed (use Cons kv in auto)
qed

lemma discoverLoop_entries:
  assumes "list_all (\<lambda>(relDir, filePath, n).
             \<not> isl (parseDataFile P (readNode filePath n) filePath)) items"
  shows "\<exists>m'. discoverLoop P m items = Inr m' \<and>
           fst ` set m' = fst ` set m \<union>
             {joinKey relDir key | relDir filePath n d key v.
                (relDir, filePath, n) \<in> set items \<and>
                parseDataFile P (readNode filePath n) filePath = Inr d \<and>
                (key, v) \<in> set d \<and> isPlainObject (Some v)} \<and>
           (\<forall>path r. (path, r) \<in> set m' \<longrightarrow> (path, r) \<in> set m \<or>
              (\<exists>relDir filePath n d key.
                 (relDir, filePath, n) \<in> set items \<and>
                 parseDataFile P (readNode filePath n) filePath = Inr d \<and>
                 (key, JObj r) \<in> set d \<and> path = joinKey relDir key))"
  using assms
proof (induction items arbitrary: m)
  case Nil
  then show ?case by simp
next
  case (Cons it items)
  obtain relDir filePath n where it: "it = (relDir, filePath, n)" by (cases it)
  obtain d where d: "parseDataFile P (readNode filePath n) filePath = Inr d"
    using Cons.prems it by (cases "parseDataFile P (readNode filePath n) filePath") auto
  have rest: "list_all (\<lambda>(relDir, filePath, n).
             \<not> isl (parseDataFile P (readNode filePath n) filePath)) items"
    using Cons.prems by simp
  from Cons.IH [OF rest, of "setEntries relDir m d"]
  obtain m' where m': "discoverLoop P (setEntries relDir m d) items = Inr m'"
    and keys: "fst ` set m' = fst ` set (setEntries relDir m d) \<union>
             {joinKey relDir key | relDir filePath n d key v.
                (relDir, filePath, n) \<in> set items \<and>
                parseDataFile P (readNode filePath n) filePath = Inr d \<and>
                (key, v) \<in> set d \<and> isPlainObject (Some v)}"
    and vals: "\<forall>path r. (path, r) \<in> set m' \<longrightarrow> (path, r) \<in> set (setEntries relDir m d) \<or>
              (\<exists>relDir filePath n d key.
                 (relDir, filePath, n) \<in> set items \<and>
                 parseDataFile P (readNode filePath n) filePath = Inr d \<and>
                 (key, JObj r) \<in> set d \<and> path = joinKey relDir key)"
    by blast
  have 1: "discoverLoop P m (it # items) = Inr m'" using m' d by (simp add: it)
  have 2: "fst ` set m' = fst ` set m \<union>
             {joinKey relDir key | relDir filePath n d key v.
                (relDir, filePath, n) \<in> set (it # items) \<and>
                parseDataFile P (readNode filePath n) filePath = Inr d \<and>
                (key, v) \<in> set d \<and> isPlainObject (Some v)}"
  proof (intro set_eqI iffI)
    fix x assume "x \<in> fst ` set m'"
    then consider "x \<in> fst ` set m"
      | "\<exists>key v. x = joinKey relDir key \<and> (key, v) \<in> set d \<and> isPlainObject (Some v)"
      | "x \<in> {joinKey relDir key | relDir filePath n d key v.
                (relDir, filePath, n) \<in> set items \<and>
                parseDataFile P (readNode filePath n) filePath = Inr d \<and>
                (key, v) \<in> set d \<and> isPlainObject (Some v)}"
      unfolding keys setEntries_keys by blast
    then show "x \<in> fst ` set m \<union>
             {joinKey relDir key | relDir filePath n d key v.
                (relDir, filePath, n) \<in> set (it # items) \<and>
                parseDataFile P (readNode filePath n) filePath = Inr d \<and>
                (key, v) \<in> set d \<and> isPlainObject (Some v)}"
    proof cases
      case 1
      then show ?thesis by blast
    next
      case 2
      then obtain key v where "x = joinKey relDir key" "(key, v) \<in> set d" "isPlainObject (Some v)"
        by blast
      then have "x \<in> {joinKey relDir key | relDir filePath n d key v.
                (relDir, filePath, n) \<in> set (it # items) \<and>
                parseDataFile P (readNode filePath n) filePath = Inr d \<and>
                (key, v) \<in> set d \<and> isPlainObject (Some v)}"
        using d it by (intro CollectI exI [of _ relDir] exI [of _ filePath] exI [of _ n]
            exI [of _ d] exI [of _ key] exI [of _ v]) simp
      then show ?thesis by blast
    next
      case 3
      then obtain relDir' filePath' n' d' key v where
        "x = joinKey relDir' key" "(relDir', filePath', n') \<in> set items"
        "parseDataFile P (readNode filePath' n') filePath' = Inr d'"
        "(key, v) \<in> set d'" "isPlainObject (Some v)"
        by blast
      then have "x \<in> {joinKey relDir key | relDir filePath n d key v.
                (relDir, filePath, n) \<in> set (it # items) \<and>
                parseDataFile P (readNode filePath n) filePath = Inr d \<and>
                (key, v) \<in> set d \<and> isPlainObject (Some v)}"
        by (intro CollectI exI [of _ relDir'] exI [of _ filePath'] exI [of _ n']
            exI [of _ d'] exI [of _ key] exI [of _ v]) simp
      then show ?thesis by blast
    qed
  next
    fix x assume "x \<in> fst ` set m \<union>
             {joinKey relDir key | relDir filePath n d key v.
                (relDir, filePath, n) \<in> set (it # items) \<and>
                parseDataFile P (readNode filePath n) filePath = Inr d \<and>
                (key, v) \<in> set d \<and> isPlainObject (Some v)}"
    then consider "x \<in> fst ` set m"
      | relDir' filePath' n' d' key v where
        "x = joinKey relDir' key" "(relDir', filePath', n') \<in> set (it # items)"
        "parseDataFile P (readNode filePath' n') filePath' = Inr d'"
        "(key, v) \<in> set d'" "isPlainObject (Some v)"
      by blast
    then show "x \<in> fst ` set m'"
    proof cases
      case 1
      then show ?thesis unfolding keys setEntries_keys by blast
    next
      case 2
      show ?thesis
      proof (cases "(relDir', filePath', n') = it")
        case True
        then have "d' = d" "relDir' = relDir" using 2(3) d it by auto
        then have "x \<in> {joinKey relDir key | key v. (key, v) \<in> set d \<and> isPlainObject (Some v)}"
          using 2 by blast
        then show ?thesis unfolding keys setEntries_keys by blast
      next
        case False
        then have "(relDir', filePath', n') \<in> set items" using 2(2) by auto
        then have "x \<in> {joinKey relDir key | relDir filePath n d key v.
                (relDir, filePath, n) \<in> set items \<and>
                parseDataFile P (readNode filePath n) filePath = Inr d \<and>
                (key, v) \<in> set d \<and> isPlainObject (Some v)}"
          using 2 by (intro CollectI exI [of _ relDir'] exI [of _ filePath'] exI [of _ n']
            exI [of _ d'] exI [of _ key] exI [of _ v]) simp
        then show ?thesis unfolding keys by blast
      qed
    qed
  qed
  have 3: "\<forall>path r. (path, r) \<in> set m' \<longrightarrow> (path, r) \<in> set m \<or>
              (\<exists>relDir filePath n d key.
                 (relDir, filePath, n) \<in> set (it # items) \<and>
                 parseDataFile P (readNode filePath n) filePath = Inr d \<and>
                 (key, JObj r) \<in> set d \<and> path = joinKey relDir key)"
  proof (intro allI impI)
    fix path r assume "(path, r) \<in> set m'"
    then consider "(path, r) \<in> set (setEntries relDir m d)"
      | "\<exists>relDir filePath n d key.
                 (relDir, filePath, n) \<in> set items \<and>
                 parseDataFile P (readNode filePath n) filePath = Inr d \<and>
                 (key, JObj r) \<in> set d \<and> path = joinKey relDir key"
      using vals by blast
    then show "(path, r) \<in> set m \<or>
              (\<exists>relDir filePath n d key.
                 (relDir, filePath, n) \<in> set (it # items) \<and>
                 parseDataFile P (readNode filePath n) filePath = Inr d \<and>
                 (key, JObj r) \<in> set d \<and> path = joinKey relDir key)"
    proof cases
      case 1
      from setEntries_values [OF 1] show ?thesis
      proof
        assume "(path, r) \<in> set m"
        then show ?thesis by blast
      next
        assume "\<exists>key. (key, JObj r) \<in> set d \<and> path = joinKey relDir key"
        then obtain key where "(key, JObj r) \<in> set d" "path = joinKey relDir key" by blast
        then have "\<exists>relDir filePath n d key.
                 (relDir, filePath, n) \<in> set (it # items) \<and>
                 parseDataFile P (readNode filePath n) filePath = Inr d \<and>
                 (key, JObj r) \<in> set d \<and> path = joinKey relDir key"
          using d it by (intro exI [of _ relDir] exI [of _ filePath] exI [of _ n]
            exI [of _ d] exI [of _ key]) simp
        then show ?thesis by blast
      qed
    next
      case 2
      then obtain relDir' filePath' n' d' key where
        "(relDir', filePath', n') \<in> set items"
        "parseDataFile P (readNode filePath' n') filePath' = Inr d'"
        "(key, JObj r) \<in> set d'" "path = joinKey relDir' key"
        by blast
      then have "\<exists>relDir filePath n d key.
                 (relDir, filePath, n) \<in> set (it # items) \<and>
                 parseDataFile P (readNode filePath n) filePath = Inr d \<and>
                 (key, JObj r) \<in> set d \<and> path = joinKey relDir key"
        by (intro exI [of _ relDir'] exI [of _ filePath'] exI [of _ n']
            exI [of _ d'] exI [of _ key]) simp
      then show ?thesis by blast
    qed
  qed
  show ?case using 1 2 3 by blast
qed


text \<open>
  C7. A hierarchical document with the key \<open>guides\<close> over the leaf \<open>installation.md\<close> and
  a flat document with the key \<open>guides/installation.md\<close>, holding the same record, flatten
  to the same map. A key is a leaf exactly when its extension is \<open>.md\<close>, \<open>.mdx\<close> or
  \<open>.mdoc\<close>; at any depth the map of \<open>flattenToMap\<close> holds, for every path, the record of
  the last pair that the walk of the specification meets for it: the walk ends a path at a
  leaf key and goes into the record under every other key.
\<close>

theorem flattenToMap_leaves:
  "flattenToMap [(''guides'', JObj [(''installation.md'', JObj r)])] []
     = flattenToMap [(''guides/installation.md'', JObj r)] [] \<and>
   flattenToMap [(''guides/installation.md'', JObj r)] [] = [(''guides/installation.md'', r)] \<and>
   (isContentFile key \<longleftrightarrow> extname key = ''.md'' \<or> extname key = ''.mdx'' \<or> extname key = ''.mdoc'') \<and>
   map_of (flattenToMap d pre) = map_of (rev (flattenHierarchical d pre))"
  using flattenToMap_example [of r] flattenToMap_refines [of d pre]
  by (simp add: isContentFile_def CONTENT_EXTENSIONS_def)

theorem flattenToMap_leaves_witness:
  "flattenToMap [(''guides'', JObj [(''installation.md'', JObj [(''title'', JStr ''Installation'')])])] []
     = flattenToMap [(''guides/installation.md'', JObj [(''title'', JStr ''Installation'')])] [] \<and>
   isContentFile ''v2.mdx'' \<and>
   map_of (flattenToMap
      [(''docs'', JObj [(''v2.mdx'', JObj [(''a.md'', JObj [])]), (''deep'', JObj [(''x.mdoc'', JObj [])]),
                        (''skipped'', JStr ''text'')])] []) ''docs/deep/x.mdoc'' = Some []"
proof -
  have e: "extname ''v2.mdx'' = ''.mdx''" by code_simp
  have f: "map_of (rev (flattenHierarchical
      [(''docs'', JObj [(''v2.mdx'', JObj [(''a.md'', JObj [])]), (''deep'', JObj [(''x.mdoc'', JObj [])]),
                        (''skipped'', JStr ''text'')])] [])) ''docs/deep/x.mdoc'' = Some []"
    by code_simp
  note th = flattenToMap_leaves [of "[(''title'', JStr ''Installation'')]" "''v2.mdx''"
      "[(''docs'', JObj [(''v2.mdx'', JObj [(''a.md'', JObj [])]), (''deep'', JObj [(''x.mdoc'', JObj [])]),
                        (''skipped'', JStr ''text'')])]" "[]"]
  show ?thesis using th e f by simp
qed

text \<open>
  C8. When the centralized map and the per-directory map are both built, the load
  returns a map that holds, for a path that both have, the deep merge of the centralized
  record with the directory-local record as the overlay; for a path that one of them has,
  that record as it is; and nothing for any other path. The load returns a map only when
  both are built. The result is a function of the parsers, the file system and the options.
\<close>

theorem loadFrontmatterMap_precedence:
  "(centralMapOf P fs opts = Inr centralMap \<and> perDirMapOf P fs opts = Inr perDirMap \<longrightarrow>
      (\<exists>merged. loadFrontmatterMap P fs opts = Inr merged \<and>
         map_of merged path =
           (case map_of perDirMap path of
              None \<Rightarrow> map_of centralMap path
            | Some perDirValue \<Rightarrow>
                (case map_of centralMap path of
                   None \<Rightarrow> Some perDirValue
                 | Some centralValue \<Rightarrow> Some (deepMerge centralValue perDirValue))))) \<and>
   (loadFrontmatterMap P fs opts = Inr merged' \<longrightarrow>
      (\<exists>centralMap perDirMap.
         centralMapOf P fs opts = Inr centralMap \<and> perDirMapOf P fs opts = Inr perDirMap))"
proof (intro conjI impI)
  assume a: "centralMapOf P fs opts = Inr centralMap \<and> perDirMapOf P fs opts = Inr perDirMap"
  then have d: "distinct (map fst perDirMap)" using perDirMapOf_distinct by blast
  have "loadFrontmatterMap P fs opts = Inr (mergePerDir centralMap perDirMap)"
    using a by (simp add: loadFrontmatterMap_def)
  then show "\<exists>merged. loadFrontmatterMap P fs opts = Inr merged \<and>
         map_of merged path =
           (case map_of perDirMap path of
              None \<Rightarrow> map_of centralMap path
            | Some perDirValue \<Rightarrow>
                (case map_of centralMap path of
                   None \<Rightarrow> Some perDirValue
                 | Some centralValue \<Rightarrow> Some (deepMerge centralValue perDirValue)))"
    using mergePerDir_lookup [OF d, of centralMap path] by simp
next
  assume "loadFrontmatterMap P fs opts = Inr merged'"
  then show "\<exists>centralMap perDirMap.
         centralMapOf P fs opts = Inr centralMap \<and> perDirMapOf P fs opts = Inr perDirMap"
    by (auto simp: loadFrontmatterMap_def split: sum.splits)
qed

theorem loadFrontmatterMap_precedence_witness:
  "centralMapOf exampleParsers exampleFs exampleOpts =
     Inr [(''guides/installation.md'', [(''title'', JStr ''Central''), (''description'', JStr ''d'')]),
          (''about.md'', [(''title'', JStr ''About'')])] \<and>
   perDirMapOf exampleParsers exampleFs exampleOpts =
     Inr [(''guides/installation.md'', [(''title'', JStr ''Local'')]),
          (''guides/notes'', [(''pinned'', JBool True)])] \<and>
   (\<exists>merged. loadFrontmatterMap exampleParsers exampleFs exampleOpts = Inr merged \<and>
      map_of merged ''guides/installation.md''
        = Some [(''title'', JStr ''Local''), (''description'', JStr ''d'')])"
proof -
  have c: "centralMapOf exampleParsers exampleFs exampleOpts =
     Inr [(''guides/installation.md'', [(''title'', JStr ''Central''), (''description'', JStr ''d'')]),
          (''about.md'', [(''title'', JStr ''About'')])]"
    by code_simp
  have l: "perDirMapOf exampleParsers exampleFs exampleOpts =
     Inr [(''guides/installation.md'', [(''title'', JStr ''Local'')]),
          (''guides/notes'', [(''pinned'', JBool True)])]"
    by code_simp
  have m: "deepMerge [(''title'', JStr ''Central''), (''description'', JStr ''d'')]
             [(''title'', JStr ''Local'')]
           = [(''title'', JStr ''Local''), (''description'', JStr ''d'')]"
    by code_simp
  have "\<exists>merged. loadFrontmatterMap exampleParsers exampleFs exampleOpts = Inr merged \<and>
      map_of merged ''guides/installation.md''
        = Some [(''title'', JStr ''Local''), (''description'', JStr ''d'')]"
    using loadFrontmatterMap_precedence
        [of exampleParsers exampleFs exampleOpts
            "[(''guides/installation.md'', [(''title'', JStr ''Central''), (''description'', JStr ''d'')]),
              (''about.md'', [(''title'', JStr ''About'')])]"
            "[(''guides/installation.md'', [(''title'', JStr ''Local'')]),
              (''guides/notes'', [(''pinned'', JBool True)])]"
            "''guides/installation.md''"] c l m
    by simp
  then show ?thesis using c l by blast
qed

text \<open>
  C9. For a path that is not a directory: a missing file yields the empty record and no
  error; \<open>parseCentralFile\<close> raises exactly when the file is there and the parser that its
  name selects fails on its text; and the error raised names the path.
\<close>

theorem parseCentralFile_errors:
  assumes "\<forall>entries. fs filePath \<noteq> Some (Dir entries)"
  shows "(fs filePath = None \<longrightarrow> parseCentralFile P fs filePath = Inr []) \<and>
         ((\<exists>e. parseCentralFile P fs filePath = Inl e) \<longleftrightarrow>
            (\<exists>content message. fs filePath = Some (File content) \<and>
               (if suffix ''.json'' filePath then JSON_parse P content = Inl message
                else parseYaml P content = Inl message))) \<and>
         (parseCentralFile P fs filePath = Inl e \<longrightarrow>
            (\<exists>message. e = Error (''Failed to parse '' @ filePath @ '': '' @ message)))"
proof (cases "fs filePath")
  case None
  then show ?thesis by (simp add: parseCentralFile_def existsSync_def)
next
  case (Some n)
  then obtain content where n: "n = File content" using assms by (cases n) auto
  have p: "parseCentralFile P fs filePath = parseDataFile P (Inr content) filePath"
    using Some n by (simp add: parseCentralFile_def existsSync_def readFileSync_def)
  show ?thesis
  proof (cases "suffix ''.json'' filePath")
    case True
    then show ?thesis using Some n p
      by (cases "JSON_parse P content") (auto simp: parseDataFile_def)
  next
    case False
    show ?thesis
    proof (cases "parseYaml P content")
      case (Inl message)
      then show ?thesis using False Some n p by (auto simp: parseDataFile_def)
    next
      case (Inr d)
      then show ?thesis using False Some n p by (cases d) (auto simp: parseDataFile_def)
    qed
  qed
qed

theorem parseCentralFile_errors_witness:
  "exampleFs ''/site/missing.yml'' = None \<and>
   parseCentralFile exampleParsers exampleFs ''/site/missing.yml'' = Inr [] \<and>
   exampleFs ''/site/broken.json'' = Some (File ''{'') \<and>
   parseCentralFile exampleParsers exampleFs ''/site/broken.json''
     = Inl (Error ''Failed to parse /site/broken.json: Unexpected end of JSON input'')"
proof -
  have n: "exampleFs ''/site/missing.yml'' = None" by code_simp
  have b: "exampleFs ''/site/broken.json'' = Some (File ''{'')" by code_simp
  have h1: "\<forall>entries. exampleFs ''/site/missing.yml'' \<noteq> Some (Dir entries)" using n by simp
  have r: "parseCentralFile exampleParsers exampleFs ''/site/broken.json''
     = Inl (Error ''Failed to parse /site/broken.json: Unexpected end of JSON input'')"
    by code_simp
  have "parseCentralFile exampleParsers exampleFs ''/site/missing.yml'' = Inr []"
    using parseCentralFile_errors
        [where fs = exampleFs and filePath = "''/site/missing.yml''" and P = exampleParsers] h1 n
    by blast
  then show ?thesis using n b r by blast
qed

text \<open>
  C10. When every document that the walk finds parses, \<open>discoverPerDirFiles\<close> returns a
  map whose paths are exactly the keys with a plain record as value of the documents found,
  each behind the relative path of its directory (no prefix at the base); the record under
  a path is the value of such a key. No test on the extension of a key takes part, and a
  key whose value is a scalar, an array or null adds nothing and raises nothing.
\<close>

theorem discoverPerDirFiles_entries:
  assumes "fs basePath = Some baseNode"
    and "list_all (\<lambda>(relDir, filePath, n).
           \<not> isl (parseDataFile P (readNode filePath n) filePath))
         (walkFrontmatterFiles basePath [] baseNode)"
  shows "\<exists>m. discoverPerDirFiles P fs basePath = Inr m \<and>
           fst ` set m =
             {joinKey relDir key | relDir filePath n d key v.
                (relDir, filePath, n) \<in> set (walkFrontmatterFiles basePath [] baseNode) \<and>
                parseDataFile P (readNode filePath n) filePath = Inr d \<and>
                (key, v) \<in> set d \<and> isPlainObject (Some v)} \<and>
           (\<forall>path r. (path, r) \<in> set m \<longrightarrow>
              (\<exists>relDir filePath n d key.
                 (relDir, filePath, n) \<in> set (walkFrontmatterFiles basePath [] baseNode) \<and>
                 parseDataFile P (readNode filePath n) filePath = Inr d \<and>
                 (key, JObj r) \<in> set d \<and> path = joinKey relDir key))"
  using discoverLoop_entries [OF assms(2), of "[]"] assms(1)
  by (simp add: discoverPerDirFiles_def)

theorem discoverPerDirFiles_entries_witness:
  "exampleFs ''/site/docs'' = Some exampleDocs \<and>
   walkFrontmatterFiles ''/site/docs'' [] exampleDocs
     = [(''guides'', ''/site/docs/guides/frontmatter.json'', Some (File ''local''))] \<and>
   \<not> isContentFile ''notes'' \<and>
   discoverPerDirFiles exampleParsers exampleFs ''/site/docs''
     = Inr [(''guides/installation.md'', [(''title'', JStr ''Local'')]),
            (''guides/notes'', [(''pinned'', JBool True)])] \<and>
   (\<exists>m. discoverPerDirFiles exampleParsers exampleFs ''/site/docs'' = Inr m \<and>
      fst ` set m =
        {joinKey relDir key | relDir filePath n d key v.
           (relDir, filePath, n) \<in> set (walkFrontmatterFiles ''/site/docs'' [] exampleDocs) \<and>
           parseDataFile exampleParsers (readNode filePath n) filePath = Inr d \<and>
           (key, v) \<in> set d \<and> isPlainObject (Some v)})"
proof -
  have h1: "exampleFs ''/site/docs'' = Some exampleDocs" by code_simp
  have h2: "list_all (\<lambda>(relDir, filePath, n).
           \<not> isl (parseDataFile exampleParsers (readNode filePath n) filePath))
         (walkFrontmatterFiles ''/site/docs'' [] exampleDocs)"
    by code_simp
  have w: "walkFrontmatterFiles ''/site/docs'' [] exampleDocs
     = [(''guides'', ''/site/docs/guides/frontmatter.json'', Some (File ''local''))]"
    by code_simp
  have k: "\<not> isContentFile ''notes''" by code_simp
  have r: "discoverPerDirFiles exampleParsers exampleFs ''/site/docs''
     = Inr [(''guides/installation.md'', [(''title'', JStr ''Local'')]),
            (''guides/notes'', [(''pinned'', JBool True)])]"
    by code_simp
  have "\<exists>m. discoverPerDirFiles exampleParsers exampleFs ''/site/docs'' = Inr m \<and>
      fst ` set m =
        {joinKey relDir key | relDir filePath n d key v.
           (relDir, filePath, n) \<in> set (walkFrontmatterFiles ''/site/docs'' [] exampleDocs) \<and>
           parseDataFile exampleParsers (readNode filePath n) filePath = Inr d \<and>
           (key, v) \<in> set d \<and> isPlainObject (Some v)}"
    using discoverPerDirFiles_entries
        [where fs = exampleFs and basePath = "''/site/docs''" and baseNode = exampleDocs
           and P = exampleParsers] h1 h2
    by blast
  then show ?thesis using h1 w k r by blast
qed


end
